theory Spec2Isabelle
  imports Main "HOL-Library.AList"
begin

section \<open>Ambient inputs and JavaScript values\<close>

text \<open>
  \<open>process.env\<close> is a dictionary from variable names to strings; reading a variable that
  is not set yields \<open>undefined\<close>, modelled as \<open>None\<close>. The non-null assertion \<open>!\<close> of
  TypeScript is erased by the compiler: \<open>process.env.X!\<close> is the same read.
\<close>

type_synonym env = "string \<rightharpoonup> string"

text \<open>String conversion of a \<open>string | undefined\<close> value, as a template literal or the
  operator \<open>+\<close> with a string operand performs it.\<close>

definition js_str :: "string option \<Rightarrow> string" where
  "js_str v = (case v of None \<Rightarrow> ''undefined'' | Some s \<Rightarrow> s)"

text \<open>
  An object literal with string keys is an association list with distinct keys, in insertion
  order. Defining a property that exists overwrites its value in place; a new property goes
  to the end (\<open>AList.update\<close>). Spreading \<open>...src\<close> into an object under construction defines
  the properties of \<open>src\<close> one after the other.
\<close>

type_synonym 'v js_object = "(string \<times> 'v) list"

definition js_spread :: "'v js_object \<Rightarrow> 'v js_object \<Rightarrow> 'v js_object" where
  "js_spread src acc = fold (\<lambda>(k, v). AList.update k v) src acc"

definition Object_keys :: "'v js_object \<Rightarrow> string list" where
  "Object_keys obj = map fst obj"

text \<open>A string with embedded unresolved values (CDK tokens): an attribute of another
  construct, named by the construct's id, or the account of the stack (\<open>this.account\<close>).\<close>

datatype token = Txt string | Attr string string | Account

type_synonym tstring = "token list"

section \<open>The application stack (lib/app-stack.ts)\<close>

record config =
  environmentVariables :: "string js_object"
  secrets :: "string list"

record app_stack_props =
  config :: config

subsection \<open>Imported and named resources\<close>

record certificate =
  certificateArn :: "string option"

record repository =
  repositoryName :: "string option"

record bucket =
  bucketName :: "string option"
  versioned :: bool
  retain :: bool
  blockAllPublicAccess :: bool
  autoDeleteObjects :: bool

record imported_bucket =
  importedBucketName :: "string option"

record isecret =
  secretName :: "string option"

record ecs_cluster =
  clusterName :: "string option"

definition domainCert :: "env \<Rightarrow> certificate" where
  "domainCert e = \<lparr>certificateArn = e ''CERTIFICATE_ARN''\<rparr>"

definition app_repository :: "env \<Rightarrow> repository" where
  "app_repository e = \<lparr>repositoryName = e ''REPOSITORY_NAME''\<rparr>"

definition staticBucket :: "env \<Rightarrow> imported_bucket" where
  "staticBucket e = \<lparr>importedBucketName = e ''STATIC_BUCKET_NAME''\<rparr>"

definition uploadBucket :: "env \<Rightarrow> bucket" where
  "uploadBucket e = \<lparr>bucketName = e ''UPLOAD_BUCKET_NAME'', versioned = False,
     retain = True, blockAllPublicAccess = True, autoDeleteObjects = False\<rparr>"

definition secret :: "env \<Rightarrow> isecret" where
  "secret e = \<lparr>secretName = e ''SECRET_NAME''\<rparr>"

definition cluster :: "env \<Rightarrow> ecs_cluster" where
  "cluster e = \<lparr>clusterName = e ''ECS_CLUSTER_NAME''\<rparr>"

subsection \<open>Aurora cluster\<close>

record cluster_instance =
  instanceId :: string
  scaleWithWriter :: "bool option"

definition serverlessV2 :: "string \<Rightarrow> bool option \<Rightarrow> cluster_instance" where
  "serverlessV2 i s = \<lparr>instanceId = i, scaleWithWriter = s\<rparr>"

record database_cluster =
  writer :: cluster_instance
  readers :: "cluster_instance list"
  credentials :: isecret
  storageEncrypted :: bool
  backupRetentionDays :: nat

text \<open>The guard of the reader instance: \<open>process.env.AURORA_READER_REPLICA !== 'false'\<close>.\<close>

definition readerReplicaCondition :: "env \<Rightarrow> bool" where
  "readerReplicaCondition e = (e ''AURORA_READER_REPLICA'' \<noteq> Some ''false'')"

definition auroraCluster :: "env \<Rightarrow> database_cluster" where
  "auroraCluster e =
     \<lparr>writer = serverlessV2 ''main'' None,
      readers = [] @ (if readerReplicaCondition e
                      then [serverlessV2 ''replica'' (Some True)] else []),
      credentials = secret e,
      storageEncrypted = True,
      backupRetentionDays = 15\<rparr>"

subsection \<open>Container definition\<close>

text \<open>\<open>props?.config?.environmentVariables\<close>; spreading \<open>undefined\<close> defines nothing.\<close>

definition configuredVariables :: "app_stack_props option \<Rightarrow> string js_object" where
  "configuredVariables props =
     (case props of None \<Rightarrow> [] | Some p \<Rightarrow> environmentVariables (config p))"

definition envVars :: "app_stack_props option \<Rightarrow> string js_object" where
  "envVars props = AList.update ''PORT'' ''3000'' (js_spread (configuredVariables props) [])"

definition envKeys :: "app_stack_props option \<Rightarrow> string list" where
  "envKeys props = Object_keys (envVars props)"

text \<open>\<open>props?.config?.secrets || []\<close>\<close>

definition secretKeys :: "app_stack_props option \<Rightarrow> string list" where
  "secretKeys props = (case props of None \<Rightarrow> [] | Some p \<Rightarrow> secrets (config p))"

text \<open>\<open>ecs.Secret.fromSecretsManager(secret, key)\<close>: a reference to one JSON field of a
  Secrets Manager secret. The value type of the container's \<open>secrets\<close> map has no other
  constructor.\<close>

datatype ecs_secret = fromSecretsManager isecret string

record health_check =
  command :: "string list"
  interval :: nat
  timeout :: nat
  retries :: nat
  startPeriod :: nat

record container_definition =
  containerImage :: repository
  containerPort :: nat
  environment :: "string option js_object"
  containerSecrets :: "ecs_secret js_object"
  healthCheck :: health_check

text \<open>The two \<open>reduce\<close> calls of \<open>addContainer\<close>: each step copies the accumulator into a new
  object and defines the computed key. \<open>envVars[key]\<close> is \<open>undefined\<close> for a missing key.\<close>

definition container_environment :: "app_stack_props option \<Rightarrow> string option js_object" where
  "container_environment props =
     fold (\<lambda>key acc. AList.update key (map_of (envVars props) key) (js_spread acc []))
       (envKeys props) []"

definition container_secrets :: "env \<Rightarrow> app_stack_props option \<Rightarrow> ecs_secret js_object" where
  "container_secrets e props =
     fold (\<lambda>key acc. AList.update key (fromSecretsManager (secret e) key) (js_spread acc []))
       (secretKeys props) []"

definition containerHealthCheck :: health_check where
  "containerHealthCheck =
     \<lparr>command = [''CMD-SHELL'',
        ''sh -c '' @ [CHR 0x27] @
        ''curl -f http://$(hostname -i):3000/api/healthCheck || exit 1'' @ [CHR 0x27]],
      interval = 30, timeout = 5, retries = 3, startPeriod = 120\<rparr>"

definition AppContainer :: "env \<Rightarrow> app_stack_props option \<Rightarrow> container_definition" where
  "AppContainer e props =
     \<lparr>containerImage = app_repository e,
      containerPort = 3000,
      environment = container_environment props,
      containerSecrets = container_secrets e props,
      healthCheck = containerHealthCheck\<rparr>"

subsection \<open>Security groups\<close>

datatype peer = anyIpv4 | groupPeer string

datatype port = tcp nat

record ingress_rule =
  rulePeer :: peer
  rulePort :: port
  ruleDescription :: string

record security_group =
  groupId :: string
  allowAllOutbound :: bool
  ingress :: "ingress_rule list"

definition SecurityGroup :: "string \<Rightarrow> bool \<Rightarrow> security_group" where
  "SecurityGroup i out = \<lparr>groupId = i, allowAllOutbound = out, ingress = []\<rparr>"

definition addIngressRule :: "peer \<Rightarrow> port \<Rightarrow> string \<Rightarrow> security_group \<Rightarrow> security_group" where
  "addIngressRule p q d g =
     g\<lparr>ingress := ingress g @ [\<lparr>rulePeer = p, rulePort = q, ruleDescription = d\<rparr>]\<rparr>"

definition albSecurityGroup :: security_group where
  "albSecurityGroup =
     addIngressRule anyIpv4 (tcp 3000) ''Allow HTTP traffic''
       (addIngressRule anyIpv4 (tcp 443) ''Allow HTTPS traffic''
         (SecurityGroup ''AppALBSecurityGroup'' True))"

definition serviceSecurityGroup :: security_group where
  "serviceSecurityGroup =
     addIngressRule (groupPeer (groupId albSecurityGroup)) (tcp 3000) ''Allow inbound from ALB''
       (SecurityGroup ''ServiceSecurityGroup'' True)"

text \<open>\<open>auroraCluster.connections.securityGroups[0]\<close>: the group the cluster construct creates
  for itself, named here by its path under the cluster.\<close>

definition dbSecurityGroup :: security_group where
  "dbSecurityGroup =
     addIngressRule (groupPeer (groupId serviceSecurityGroup)) (tcp 5432)
       ''Allow Aurora access from ECS tasks''
       (SecurityGroup ''AuroraServerlessCluster/SecurityGroup'' True)"

subsection \<open>Service, target group, distribution\<close>

record fargate_service =
  desiredCount :: nat
  assignPublicIp :: bool
  circuitBreakerRollback :: bool
  serviceSecurityGroups :: "string list"
  healthCheckGracePeriod :: nat

definition fargateService :: fargate_service where
  "fargateService =
     \<lparr>desiredCount = 2, assignPublicIp = False, circuitBreakerRollback = True,
      serviceSecurityGroups = [groupId serviceSecurityGroup],
      healthCheckGracePeriod = 120\<rparr>"

record target_health_check =
  path :: string
  unhealthyThresholdCount :: nat
  healthyThresholdCount :: nat
  targetInterval :: nat
  targetTimeout :: nat
  healthyHttpCodes :: string

record target_group =
  targetMembers :: "string list"
  targetPort :: nat
  targetHealthCheck :: target_health_check

definition ApplicationFleet :: target_group where
  "ApplicationFleet =
     \<lparr>targetMembers = [''AppFargateService''], targetPort = 3000,
      targetHealthCheck = \<lparr>path = ''/api/healthCheck'', unhealthyThresholdCount = 2,
        healthyThresholdCount = 2, targetInterval = 60, targetTimeout = 5,
        healthyHttpCodes = ''200-299''\<rparr>\<rparr>"

record distribution =
  domainNames :: "string option list"
  distributionCertificate :: certificate

definition AppDistribution :: "env \<Rightarrow> distribution" where
  "AppDistribution e =
     \<lparr>domainNames = [e ''DOMAIN_NAME'', Some (''www.'' @ js_str (e ''DOMAIN_NAME''))],
      distributionCertificate = domainCert e\<rparr>"

subsection \<open>Permissions of the deployment role\<close>

record policy_statement =
  actions :: "string list"
  resources :: "tstring list"

definition PolicyStatement :: "string list \<Rightarrow> tstring list \<Rightarrow> policy_statement" where
  "PolicyStatement a r = \<lparr>actions = a, resources = r\<rparr>"

record principal =
  principalArn :: tstring
  policy :: "policy_statement list"

text \<open>\<open>addToPrincipalPolicy\<close> and \<open>addToPolicy\<close> append a statement to the principal's policy.\<close>

definition addToPolicy :: "policy_statement \<Rightarrow> principal \<Rightarrow> principal" where
  "addToPolicy s p = p\<lparr>policy := policy p @ [s]\<rparr>"

definition app_githubActionsRole :: "env \<Rightarrow> principal" where
  "app_githubActionsRole e =
     addToPolicy (PolicyStatement [''iam:PassRole''] [[Txt ''*'']])
    (addToPolicy (PolicyStatement
        [''ecs:DescribeTaskDefinition'', ''ecs:RegisterTaskDefinition''] [[Txt ''*'']])
    (addToPolicy (PolicyStatement [''ecs:UpdateService'']
        [[Attr ''AppFargateService'' ''serviceArn'']])
    (addToPolicy (PolicyStatement [''cloudfront:CreateInvalidation'']
        [[Txt ''arn:aws:cloudfront::'', Account, Txt '':distribution/'',
          Attr ''AppDistribution'' ''distributionId'']])
     \<lparr>principalArn = [Txt ''arn:aws:iam::'', Account, Txt '':role/'',
          Txt (js_str (e ''GITHUB_ACTIONS_ROLE_NAME''))],
      policy = []\<rparr>)))"

section \<open>The artifact stack (lib/artifact-stack.ts)\<close>



definition artifact_githubActionsRole :: "env \<Rightarrow> principal" where
  "artifact_githubActionsRole e =
     addToPolicy (PolicyStatement [''s3:ListBucket'']
        [[Attr ''AppStaticBucket'' ''bucketArn'']])
    (addToPolicy (PolicyStatement [''s3:PutObject'', ''s3:GetObject'', ''s3:DeleteObject'']
        [[Attr ''AppStaticBucket'' ''bucketArn'', Txt ''/*'']])
    (addToPolicy (PolicyStatement [''ecr:GetAuthorizationToken''] [[Txt ''*'']])
    (addToPolicy (PolicyStatement
        [''ecr:InitiateLayerUpload'', ''ecr:UploadLayerPart'', ''ecr:CompleteLayerUpload'',
         ''ecr:PutImage'', ''ecr:BatchCheckLayerAvailability'']
        [[Attr ''AppRepository'' ''repositoryArn'']])
     \<lparr>principalArn = [Attr ''GithubActionsDeploymentRole'' ''roleArn''],
      policy = []\<rparr>)))"

definition githubActionsUser :: "env \<Rightarrow> principal" where
  "githubActionsUser e =
     addToPolicy (PolicyStatement [''sts:AssumeRole'']
        [principalArn (artifact_githubActionsRole e)])
     \<lparr>principalArn = [Attr ''GitHubActionsDeploymentUser'' ''userArn''], policy = []\<rparr>"

text \<open>Every statement attached to the deployment identity: the role, as both stacks extend
  its policy, and the user that assumes it.\<close>

definition ci_statements :: "env \<Rightarrow> policy_statement list" where
  "ci_statements e =
     policy (app_githubActionsRole e) @ policy (artifact_githubActionsRole e) @
     policy (githubActionsUser e)"



section \<open>The stacks as compositions\<close>

record app_stack =
  s_domainCert :: certificate
  s_repository :: repository
  s_staticBucket :: imported_bucket
  s_uploadBucket :: bucket
  s_secret :: isecret
  s_auroraCluster :: database_cluster
  s_cluster :: ecs_cluster
  s_container :: container_definition
  s_albSecurityGroup :: security_group
  s_serviceSecurityGroup :: security_group
  s_dbSecurityGroup :: security_group
  s_fargateService :: fargate_service
  s_targetGroup :: target_group
  s_distribution :: distribution
  s_githubActionsRole :: principal

definition AppStack :: "env \<Rightarrow> app_stack_props option \<Rightarrow> app_stack" where
  "AppStack e props =
     \<lparr>s_domainCert = domainCert e,
      s_repository = app_repository e,
      s_staticBucket = staticBucket e,
      s_uploadBucket = uploadBucket e,
      s_secret = secret e,
      s_auroraCluster = auroraCluster e,
      s_cluster = cluster e,
      s_container = AppContainer e props,
      s_albSecurityGroup = albSecurityGroup,
      s_serviceSecurityGroup = serviceSecurityGroup,
      s_dbSecurityGroup = dbSecurityGroup,
      s_fargateService = fargateService,
      s_targetGroup = ApplicationFleet,
      s_distribution = AppDistribution e,
      s_githubActionsRole = app_githubActionsRole e\<rparr>"

subsection \<open>The constructs of the application stack and what each one mentions\<close>

text \<open>
  One node for each construct the stack creates or imports, in the order of the source, with
  the ids of the constructs its declaration mentions. A grant or a policy statement added
  to a role counts as a mention by the role; an ingress rule whose peer is a security group
  counts as a mention by the group that owns the rule. The cluster mentions its writer and
  each element of its reader list.
\<close>

record construct =
  cid :: string
  refs :: "string list"

definition Construct :: "string \<Rightarrow> string list \<Rightarrow> construct" where
  "Construct i r = \<lparr>cid = i, refs = r\<rparr>"

fun peer_ref :: "peer \<Rightarrow> string list" where
  "peer_ref anyIpv4 = []"
| "peer_ref (groupPeer g) = [g]"

definition peer_refs :: "security_group \<Rightarrow> string list" where
  "peer_refs g = concat (map (\<lambda>r. peer_ref (rulePeer r)) (ingress g))"

fun token_ref :: "token \<Rightarrow> string list" where
  "token_ref (Txt s) = []"
| "token_ref (Attr c a) = [c]"
| "token_ref Account = []"

definition statement_refs :: "policy_statement list \<Rightarrow> string list" where
  "statement_refs ps = concat (map (\<lambda>s. concat (map (\<lambda>r. concat (map token_ref r)) (resources s))) ps)"

definition instance_constructs :: "database_cluster \<Rightarrow> construct list" where
  "instance_constructs c = map (\<lambda>i. Construct (instanceId i) []) (writer c # readers c)"

definition app_constructs :: "env \<Rightarrow> app_stack_props option \<Rightarrow> construct list" where
  "app_constructs e props =
     [Construct ''DomainCertificate'' [],
      Construct ''AppVPC'' [],
      Construct ''AppRepository'' [],
      Construct ''AppStaticBucket'' [],
      Construct ''AppUploadBucket'' [],
      Construct ''AppSecret'' []] @
     instance_constructs (auroraCluster e) @
     [Construct ''AuroraServerlessCluster''
        ([''AppVPC''] @ map instanceId (writer (auroraCluster e) # readers (auroraCluster e)) @
         [''AppSecret'']),
      Construct ''AppCluster'' [''AppVPC''],
      Construct ''TaskRole'' [''AppUploadBucket''],
      Construct ''AppTaskDefinition'' [''TaskRole''],
      Construct ''AppContainer''
        ([''AppTaskDefinition'', ''AppRepository''] @
         (if secretKeys props = [] then [] else [''AppSecret''])),
      Construct (groupId albSecurityGroup) ([''AppVPC''] @ peer_refs albSecurityGroup),
      Construct ''AppLoadBalancer'' [''AppVPC'', groupId albSecurityGroup],
      Construct ''https'' [''AppLoadBalancer'', ''DomainCertificate''],
      Construct (groupId serviceSecurityGroup) ([''AppVPC''] @ peer_refs serviceSecurityGroup),
      Construct (groupId dbSecurityGroup)
        ([''AuroraServerlessCluster''] @ peer_refs dbSecurityGroup),
      Construct ''AppFargateService''
        ([''AppCluster'', ''AppTaskDefinition''] @ serviceSecurityGroups fargateService),
      Construct ''ApplicationFleet'' ([''https''] @ targetMembers ApplicationFleet),
      Construct ''CustomCachePolicy'' [],
      Construct ''AppWebACL'' [],
      Construct ''AppDistribution''
        [''AppLoadBalancer'', ''AppStaticBucket'', ''CustomCachePolicy'', ''DomainCertificate'',
         ''AppWebACL''],
      Construct ''GitHubActionsRole'' (statement_refs (policy (app_githubActionsRole e))),
      Construct ''CloudFrontDistribution'' [''AppDistribution''],
      Construct ''ECSCluster'' [''AppCluster''],
      Construct ''ECSService'' [''AppFargateService''],
      Construct ''CloudFrontURL'' [''AppDistribution'']]"


subsection \<open>Running the constructors\<close>


datatype error =
  DuplicateResource | UnknownResource | DanglingReference | CyclicDependency
  | MissingRequiredInput | UnresolvedDependency | LibraryError string string







section \<open>Reference resolution and build order\<close>

text \<open>
  Modelled from the spec: the Reference Resolver and the Dependency Graph Builder (sections
  4.3 and 4.4) are not part of the sources; the stacks hand their constructs to the CDK
  library. A reference names a target construct and an attribute of it.
\<close>

record reference =
  targetResourceId :: string
  attributePath :: string

text \<open>
  Modelled from the spec: \<open>resolve\<close> of section 4.3, against the graph left by the conditions
  and the ids materialized so far. A target that is not in the graph (pruned by a false
  condition, or never declared) is a \<open>DanglingReference\<close>; a target in the graph that is not
  yet materialized is an \<open>UnresolvedDependency\<close>; otherwise the value is the attribute.
\<close>

definition resolve :: "construct list \<Rightarrow> string list \<Rightarrow> reference \<Rightarrow> error + token" where
  "resolve g materialized r =
     (if targetResourceId r \<notin> set (map cid g) then Inl DanglingReference
      else if targetResourceId r \<notin> set materialized then Inl UnresolvedDependency
      else Inr (Attr (targetResourceId r) (attributePath r)))"

text \<open>
  Modelled from the spec: the topological sort of section 4.4, stable by declaration order.
  Each round emits the first pending construct all of whose references are emitted; when
  constructs are pending and none can be emitted, the graph has a cycle. The fuel is the
  number of pending constructs, which each round decreases by one.
\<close>

fun topo :: "nat \<Rightarrow> string list \<Rightarrow> construct list \<Rightarrow> error + construct list" where
  "topo fuel emitted [] = Inr []"
| "topo 0 emitted (c # cs) = Inl CyclicDependency"
| "topo (Suc fuel) emitted (c # cs) =
     (case find (\<lambda>x. set (refs x) \<subseteq> set emitted) (c # cs) of
        None \<Rightarrow> Inl CyclicDependency
      | Some x \<Rightarrow>
          (case topo fuel (emitted @ [cid x]) (remove1 x (c # cs)) of
             Inl err \<Rightarrow> Inl err
           | Inr rest \<Rightarrow> Inr (x # rest)))"

text \<open>
  Modelled from the spec: \<open>build\<close> of section 4.4 with the validation of section 3: ids are
  unique, every reference has its target in the graph (checked on the graph after the
  conditions have pruned it), and the order is topological.
\<close>

definition all_refs :: "construct list \<Rightarrow> string list" where
  "all_refs g = concat (map refs g)"

definition build :: "construct list \<Rightarrow> error + construct list" where
  "build g =
     (if \<not> distinct (map cid g) then Inl DuplicateResource
      else if \<not> set (all_refs g) \<subseteq> set (map cid g) then Inl DanglingReference
      else topo (length g) [] g)"

section \<open>Vocabulary of the properties\<close>

text \<open>
  The permission classes the specification allows the deployment identity: image push,
  service update and cache invalidation, each with the actions it cannot work without
  (the registry login for a push; describing and registering the task definition and
  passing its roles for a service update), and the user's permission to take the role.
\<close>

definition image_push_actions :: "string list" where
  "image_push_actions =
     [''ecr:GetAuthorizationToken'', ''ecr:InitiateLayerUpload'', ''ecr:UploadLayerPart'',
      ''ecr:CompleteLayerUpload'', ''ecr:PutImage'', ''ecr:BatchCheckLayerAvailability'']"

definition service_update_actions :: "string list" where
  "service_update_actions =
     [''ecs:UpdateService'', ''ecs:DescribeTaskDefinition'', ''ecs:RegisterTaskDefinition'',
      ''iam:PassRole'']"

definition cache_invalidation_actions :: "string list" where
  "cache_invalidation_actions = [''cloudfront:CreateInvalidation'']"

definition constrained_actions :: "string list" where
  "constrained_actions =
     image_push_actions @ service_update_actions @ cache_invalidation_actions @
     [''sts:AssumeRole'']"

text \<open>The actions of the static asset upload: reading, writing, deleting and listing objects.\<close>

definition static_asset_actions :: "string list" where
  "static_asset_actions =
     [''s3:PutObject'', ''s3:GetObject'', ''s3:DeleteObject'', ''s3:ListBucket'']"

definition ci_actions :: "env \<Rightarrow> string list" where
  "ci_actions e = concat (map actions (ci_statements e))"

definition wildcard_resource :: "policy_statement \<Rightarrow> bool" where
  "wildcard_resource s = ([Txt ''*''] \<in> set (resources s))"

text \<open>A list of constructs is in dependency order when each one mentions only constructs
  that stand before it (or are among the ids given at the start).\<close>

fun in_order :: "string list \<Rightarrow> construct list \<Rightarrow> bool" where
  "in_order emitted [] = True"
| "in_order emitted (c # cs) =
     (set (refs c) \<subseteq> set emitted \<and> in_order (emitted @ [cid c]) cs)"

text \<open>An environment that sets every required input, and one that leaves out the name of
  the upload bucket and the name of the cluster.\<close>

definition partial_env :: env where
  "partial_env =
     [''CERTIFICATE_ARN'' \<mapsto> ''arn:aws:acm:us-east-1:111111111111:certificate/example'',
      ''REPOSITORY_NAME'' \<mapsto> ''app'',
      ''STATIC_BUCKET_NAME'' \<mapsto> ''app-static'',
      ''SECRET_NAME'' \<mapsto> ''app-secret'',
      ''DOMAIN_NAME'' \<mapsto> ''example.com'',
      ''GITHUB_ACTIONS_USER_NAME'' \<mapsto> ''github-actions-deployment-user'',
      ''GITHUB_ACTIONS_ROLE_NAME'' \<mapsto> ''github-actions-deployment-role'']"

definition full_env :: env where
  "full_env = partial_env(''UPLOAD_BUCKET_NAME'' \<mapsto> ''app-uploads'',
                          ''ECS_CLUSTER_NAME'' \<mapsto> ''app-cluster'')"


section \<open>Rollout orchestrator\<close>

text \<open>
  Modelled from the spec: the Rollout Orchestrator of section 4.5 is the deployment
  controller of the container service and the load balancer's health checker. They are not
  part of the sources: the stacks only set their parameters (the two health checks, the
  desired count, the circuit breaker and the grace period). The state machine below follows
  the words of sections 4.5, 5 and 7; times are seconds.
\<close>

text \<open>Modelled from the spec: the states of the rollout (section 4.5).\<close>

datatype phase =
  PENDING | SCALING_UP | HEALTH_EVALUATION | STEADY | ROLLING_BACK | ROLLED_BACK | FAILED

text \<open>Modelled from the spec: the sub-states of a new instance,
  \<open>starting \<rightarrow> healthy \<rightarrow> unhealthy \<rightarrow> replaced\<close> (section 4.5).\<close>

datatype sub_state = starting | healthy | unhealthy | replaced

text \<open>Modelled from the spec: a new instance with its launch time and its runs of
  consecutive successful and failed polls.\<close>

record task_instance =
  launchedAt :: nat
  sub :: sub_state
  successes :: nat
  failures :: nat

text \<open>Modelled from the spec: the parameters of the orchestrator (sections 4.5 and 6):
  desired count, start period, poll interval, the two thresholds, the tolerance of unhealthy
  instances and the grace period after the start of the deployment. The events carry the
  poll times; the interval says how a scenario spaces them.\<close>

record rollout_config =
  rc_desiredCount :: nat
  rc_startPeriod :: nat
  rc_interval :: nat
  rc_healthyThreshold :: nat
  rc_unhealthyThreshold :: nat
  rc_tolerance :: nat
  rc_gracePeriod :: nat

text \<open>
  Modelled from the spec: the deployment record of section 3 (phase, start time), the new
  task instances with their sub-states, the target-group membership set of section 5 (the
  positions of the registered instances) and the number of rollbacks begun. The counters
  \<open>runningHealthy\<close> and \<open>runningUnhealthy\<close> of the record are computed from the sub-states.
\<close>

record rollout =
  phase :: phase
  startedAt :: nat
  instances :: "task_instance list"
  targetSet :: "nat list"
  rollbacks :: nat

text \<open>Modelled from the spec: the counters of healthy and unhealthy instances.\<close>

definition runningHealthy :: "rollout \<Rightarrow> nat" where
  "runningHealthy r = length (filter (\<lambda>i. sub i = healthy) (instances r))"

definition runningUnhealthy :: "rollout \<Rightarrow> nat" where
  "runningUnhealthy r = length (filter (\<lambda>i. sub i = unhealthy) (instances r))"

text \<open>Modelled from the spec: a deployment starts \<open>PENDING\<close> with no new instance; an
  instance starts in the sub-state \<open>starting\<close>.\<close>

definition new_rollout :: "nat \<Rightarrow> rollout" where
  "new_rollout t = \<lparr>phase = PENDING, startedAt = t, instances = [], targetSet = [], rollbacks = 0\<rparr>"

definition new_instance :: "nat \<Rightarrow> task_instance" where
  "new_instance t = \<lparr>launchedAt = t, sub = starting, successes = 0, failures = 0\<rparr>"

text \<open>
  Modelled from the spec: the events of the control loop. \<open>Launch t\<close> starts one new
  instance; \<open>Poll k t ok\<close> is the result of one health poll of instance \<open>k\<close>; \<open>Tick t\<close> is
  the passing of time; \<open>Cancel\<close> is a new deployment request; \<open>Restored ok\<close> reports
  whether the rollback restored the previous task definition.
\<close>

datatype event = Launch nat | Poll nat nat bool | Tick nat | Cancel | Restored bool

text \<open>Modelled from the spec: a rollback tears the new instances down (section 4.5).\<close>

definition teardown :: "rollout \<Rightarrow> rollout" where
  "teardown r =
     r\<lparr>phase := ROLLING_BACK,
       instances := map (\<lambda>i. i\<lparr>sub := replaced\<rparr>) (instances r),
       targetSet := [],
       rollbacks := Suc (rollbacks r)\<rparr>"

text \<open>
  Modelled from the spec: a poll answer counts towards the consecutive-success or the
  consecutive-failure threshold. A starting instance becomes healthy at the success
  threshold; a starting or healthy instance becomes unhealthy at the failure threshold.
\<close>

definition on_success :: "rollout_config \<Rightarrow> task_instance \<Rightarrow> task_instance" where
  "on_success c i =
     i\<lparr>successes := Suc (successes i), failures := 0,
       sub := (if sub i = starting \<and> rc_healthyThreshold c \<le> Suc (successes i)
               then healthy else sub i)\<rparr>"

definition on_failure :: "rollout_config \<Rightarrow> task_instance \<Rightarrow> task_instance" where
  "on_failure c i =
     i\<lparr>failures := Suc (failures i), successes := 0,
       sub := (if (sub i = starting \<or> sub i = healthy) \<and>
                  rc_unhealthyThreshold c \<le> Suc (failures i)
               then unhealthy else sub i)\<rparr>"

text \<open>Modelled from the spec: the start period of an instance runs from its launch, the
  grace period of the rollout from the start of the deployment.\<close>

definition in_start_period :: "rollout_config \<Rightarrow> task_instance \<Rightarrow> nat \<Rightarrow> bool" where
  "in_start_period c i t = (t < launchedAt i + rc_startPeriod c)"

definition in_grace_period :: "rollout_config \<Rightarrow> rollout \<Rightarrow> nat \<Rightarrow> bool" where
  "in_grace_period c r t = (t \<le> startedAt r + rc_gracePeriod c)"

text \<open>
  Modelled from the spec: a successful poll. The instance is registered in the target set
  when it is healthy; the rollout is \<open>STEADY\<close> when the desired count is healthy.
\<close>

definition poll_success :: "rollout_config \<Rightarrow> nat \<Rightarrow> rollout \<Rightarrow> rollout" where
  "poll_success c k r =
     (let i = on_success c (instances r ! k);
          r' = r\<lparr>instances := (instances r)[k := i],
                 targetSet := (if sub i = healthy then List.insert k (targetSet r)
                               else targetSet r)\<rparr>
      in if rc_desiredCount c \<le> runningHealthy r' then r'\<lparr>phase := STEADY\<rparr> else r')"

text \<open>
  Modelled from the spec: a failed poll outside the start period. An instance that becomes
  unhealthy leaves the target set; when it crosses the threshold inside the grace period and
  the unhealthy instances exceed the tolerance, the rollout rolls back.
\<close>

definition poll_failure :: "rollout_config \<Rightarrow> nat \<Rightarrow> nat \<Rightarrow> rollout \<Rightarrow> rollout" where
  "poll_failure c k t r =
     (let i = on_failure c (instances r ! k);
          r' = r\<lparr>instances := (instances r)[k := i],
                 targetSet := (if sub i = unhealthy then removeAll k (targetSet r)
                               else targetSet r)\<rparr>
      in if sub (instances r ! k) \<noteq> unhealthy \<and> sub i = unhealthy \<and>
            rc_tolerance c < runningUnhealthy r' \<and> in_grace_period c r t
         then teardown r' else r')"

text \<open>
  Modelled from the spec: one step of the control loop. Instances are launched up to the
  desired count, then health evaluation begins. Polls are evaluated during health
  evaluation only; a failed poll inside the start period of its instance does not count.
  Health evaluation that outlasts the grace period is a \<open>RolloutTimeout\<close> and rolls back,
  and so does a cancellation. A rollback ends \<open>ROLLED_BACK\<close> or \<open>FAILED\<close>. The
  stabilization window of \<open>STEADY\<close> and the draining of the old instances are left out.
\<close>

fun step :: "rollout_config \<Rightarrow> event \<Rightarrow> rollout \<Rightarrow> rollout" where
  "step c (Launch t) r =
     (if (phase r = PENDING \<or> phase r = SCALING_UP) \<and> length (instances r) < rc_desiredCount c
      then r\<lparr>instances := instances r @ [new_instance t],
             phase := (if rc_desiredCount c \<le> Suc (length (instances r))
                       then HEALTH_EVALUATION else SCALING_UP)\<rparr>
      else r)"
| "step c (Poll k t ok) r =
     (if phase r \<noteq> HEALTH_EVALUATION \<or> length (instances r) \<le> k then r
      else if ok then poll_success c k r
      else if in_start_period c (instances r ! k) t then r
      else poll_failure c k t r)"
| "step c (Tick t) r =
     (if phase r = HEALTH_EVALUATION \<and> \<not> in_grace_period c r t then teardown r else r)"
| "step c Cancel r =
     (if phase r = PENDING \<or> phase r = SCALING_UP \<or> phase r = HEALTH_EVALUATION
      then teardown r else r)"
| "step c (Restored ok) r =
     (if phase r = ROLLING_BACK then r\<lparr>phase := (if ok then ROLLED_BACK else FAILED)\<rparr> else r)"

text \<open>Modelled from the spec: the control loop takes the events one after the other.\<close>

definition run :: "rollout_config \<Rightarrow> event list \<Rightarrow> rollout \<Rightarrow> rollout" where
  "run c evs r = fold (step c) evs r"

text \<open>
  Modelled from the spec: the parameters the stacks set, arranged as configurations of the
  orchestrator. The
  container health check of the task definition gives the start period, the interval and
  the failure threshold (its retries); it has no success threshold, so one success counts.
  The health check of the target group gives both thresholds and the interval; it has no
  start period. The service gives the desired count and the grace period. The sources set
  no tolerance: none is allowed.
\<close>

definition container_check_config :: rollout_config where
  "container_check_config =
     \<lparr>rc_desiredCount = desiredCount fargateService,
      rc_startPeriod = startPeriod containerHealthCheck,
      rc_interval = interval containerHealthCheck,
      rc_healthyThreshold = 1,
      rc_unhealthyThreshold = retries containerHealthCheck,
      rc_tolerance = 0,
      rc_gracePeriod = healthCheckGracePeriod fargateService\<rparr>"

definition target_check_config :: rollout_config where
  "target_check_config =
     \<lparr>rc_desiredCount = desiredCount fargateService,
      rc_startPeriod = 0,
      rc_interval = targetInterval (targetHealthCheck ApplicationFleet),
      rc_healthyThreshold = healthyThresholdCount (targetHealthCheck ApplicationFleet),
      rc_unhealthyThreshold = unhealthyThresholdCount (targetHealthCheck ApplicationFleet),
      rc_tolerance = 0,
      rc_gracePeriod = healthCheckGracePeriod fargateService\<rparr>"

text \<open>Every registered position is an instance in the healthy sub-state.\<close>

definition serves_only_healthy :: "rollout \<Rightarrow> bool" where
  "serves_only_healthy r =
     list_all (\<lambda>k. k < length (instances r) \<and> sub (instances r ! k) = healthy) (targetSet r)"

text \<open>A list of events in which every failed poll falls inside the start period of the
  instance polled, and which has no timeout and no cancellation.\<close>

fun fails_in_start_period_only :: "rollout_config \<Rightarrow> rollout \<Rightarrow> event list \<Rightarrow> bool" where
  "fails_in_start_period_only c r [] = True"
| "fails_in_start_period_only c r (ev # evs) =
     ((case ev of
         Launch t \<Rightarrow> True
       | Poll k t ok \<Rightarrow>
           ok \<or> (k < length (instances r) \<and> in_start_period c (instances r ! k) t)
       | Tick t \<Rightarrow> in_grace_period c r t
       | Cancel \<Rightarrow> False
       | Restored ok \<Rightarrow> True) \<and>
      fails_in_start_period_only c (step c ev r) evs)"

text \<open>
  The scenario of the start period: two instances are launched at time 0; the polls of
  both at 0, 30, 60 and 90 seconds fail; the polls at 120 seconds succeed. Time passes
  before each round of polls.
\<close>

definition start_period_scenario :: "event list" where
  "start_period_scenario =
     [Launch 0, Launch 0] @
     concat (map (\<lambda>t. [Tick t, Poll 0 t False, Poll 1 t False]) [0, 30, 60, 90]) @
     [Tick 120, Poll 0 120 True, Poll 1 120 True]"

text \<open>Registered exactly when healthy: the invariant of the target set.\<close>

definition registered_iff_healthy :: "rollout \<Rightarrow> bool" where
  "registered_iff_healthy r =
     (set (targetSet r) = {k. k < length (instances r) \<and> sub (instances r ! k) = healthy})"

section \<open>Objects as association lists\<close>

lemma update_fresh: "k \<notin> fst ` set ys \<Longrightarrow> AList.update k v ys = ys @ [(k, v)]"
  by (induction ys) auto

lemma spread_onto: "distinct (map fst (ys @ xs)) \<Longrightarrow> js_spread xs ys = ys @ xs"
  unfolding js_spread_def
proof (induction xs arbitrary: ys)
  case Nil show ?case by simp
next
  case (Cons a xs)
  obtain k v where a: "a = (k, v)" by (cases a)
  from Cons.prems have fresh: "k \<notin> fst ` set ys" and d: "distinct (map fst ((ys @ [(k, v)]) @ xs))"
    unfolding a by auto
  show ?case unfolding a using Cons.IH [OF d] fresh by (simp add: update_fresh)
qed

lemma spread_copy: "distinct (map fst xs) \<Longrightarrow> js_spread xs [] = xs"
  using spread_onto [of "[]" xs] by simp

lemma map_of_js_spread: "map_of (js_spread src acc) = map_of acc ++ map_of (rev src)"
  unfolding js_spread_def
proof (induction src arbitrary: acc)
  case Nil show ?case by simp
next
  case (Cons a src)
  obtain k v where a: "a = (k, v)" by (cases a)
  show ?case unfolding a
    by (rule ext) (simp add: Cons.IH update_conv' map_add_def split: option.splits)
qed

lemma distinct_js_spread: "distinct (map fst acc) \<Longrightarrow> distinct (map fst (js_spread src acc))"
  unfolding js_spread_def
  by (induction src arbitrary: acc) (auto simp: distinct_update)

lemma reduce_distinct:
  "distinct (map fst acc0) \<Longrightarrow>
   distinct (map fst (fold (\<lambda>key acc. AList.update key (f key) (js_spread acc [])) ks acc0))"
  by (induction ks arbitrary: acc0) (auto simp: distinct_update spread_copy)

lemma map_of_reduce:
  "distinct (map fst acc0) \<Longrightarrow>
   map_of (fold (\<lambda>key acc. AList.update key (f key) (js_spread acc [])) ks acc0) k =
     (if k \<in> set ks then Some (f k) else map_of acc0 k)"
proof (induction ks arbitrary: acc0)
  case Nil show ?case by simp
next
  case (Cons a ks)
  have d: "distinct (map fst (AList.update a (f a) (js_spread acc0 [])))"
    using Cons.prems by (simp add: distinct_update spread_copy)
  show ?case using Cons.IH [OF d] Cons.prems by (simp add: update_conv' spread_copy)
qed

lemma dom_envVars: "set (envKeys props) = insert ''PORT'' (fst ` set (configuredVariables props))"
proof -
  have "set (envKeys props) = dom (map_of (envVars props))"
    unfolding envKeys_def Object_keys_def by (simp add: dom_map_of_conv_image_fst)
  also have "\<dots> = insert ''PORT'' (dom (map_of (rev (configuredVariables props))))"
    unfolding envVars_def by (simp add: update_conv' map_of_js_spread)
  finally show ?thesis by (simp add: dom_map_of_conv_image_fst)
qed

lemma map_of_envVars:
  "map_of (envVars props) k = (if k = ''PORT'' then Some ''3000''
     else map_of (rev (configuredVariables props)) k)"
  unfolding envVars_def by (simp add: update_conv' map_of_js_spread)

lemma map_of_container_environment:
  "map_of (container_environment props) k =
     (if k \<in> set (envKeys props) then Some (map_of (envVars props) k) else None)"
  unfolding container_environment_def by (simp add: map_of_reduce)

lemma map_of_container_secrets:
  "map_of (container_secrets e props) k =
     (if k \<in> set (secretKeys props) then Some (fromSecretsManager (secret e) k) else None)"
  unfolding container_secrets_def by (simp add: map_of_reduce)


lemma map_of_rev_distinct:
  fixes xs :: "'v js_object"
  shows "distinct (map fst xs) \<Longrightarrow> map_of (rev xs) = map_of xs"
proof -
  assume d: "distinct (map fst xs)"
  have "map_of (js_spread xs []) = map_of (rev xs)"
    unfolding map_of_js_spread by simp
  then show ?thesis using spread_copy [OF d] by simp
qed

section \<open>The statements of the deployment identity\<close>

lemma ci_statements_eq:
  "ci_statements e =
    [PolicyStatement [''cloudfront:CreateInvalidation'']
        [[Txt ''arn:aws:cloudfront::'', Account, Txt '':distribution/'',
          Attr ''AppDistribution'' ''distributionId'']],
     PolicyStatement [''ecs:UpdateService''] [[Attr ''AppFargateService'' ''serviceArn'']],
     PolicyStatement [''ecs:DescribeTaskDefinition'', ''ecs:RegisterTaskDefinition''] [[Txt ''*'']],
     PolicyStatement [''iam:PassRole''] [[Txt ''*'']],
     PolicyStatement
        [''ecr:InitiateLayerUpload'', ''ecr:UploadLayerPart'', ''ecr:CompleteLayerUpload'',
         ''ecr:PutImage'', ''ecr:BatchCheckLayerAvailability'']
        [[Attr ''AppRepository'' ''repositoryArn'']],
     PolicyStatement [''ecr:GetAuthorizationToken''] [[Txt ''*'']],
     PolicyStatement [''s3:PutObject'', ''s3:GetObject'', ''s3:DeleteObject'']
        [[Attr ''AppStaticBucket'' ''bucketArn'', Txt ''/*'']],
     PolicyStatement [''s3:ListBucket''] [[Attr ''AppStaticBucket'' ''bucketArn'']],
     PolicyStatement [''sts:AssumeRole''] [[Attr ''GithubActionsDeploymentRole'' ''roleArn'']]]"
  by (simp add: ci_statements_def app_githubActionsRole_def artifact_githubActionsRole_def
      githubActionsUser_def addToPolicy_def)

lemma ci_actions_eq:
  "ci_actions e =
     [''cloudfront:CreateInvalidation'', ''ecs:UpdateService'', ''ecs:DescribeTaskDefinition'',
      ''ecs:RegisterTaskDefinition'', ''iam:PassRole'', ''ecr:InitiateLayerUpload'',
      ''ecr:UploadLayerPart'', ''ecr:CompleteLayerUpload'', ''ecr:PutImage'',
      ''ecr:BatchCheckLayerAvailability'', ''ecr:GetAuthorizationToken'', ''s3:PutObject'',
      ''s3:GetObject'', ''s3:DeleteObject'', ''s3:ListBucket'', ''sts:AssumeRole'']"
  by (simp add: ci_actions_def ci_statements_eq PolicyStatement_def)

section \<open>The construct graph\<close>

lemma topo_in_order: "in_order emitted g \<Longrightarrow> length g \<le> fuel \<Longrightarrow> topo fuel emitted g = Inr g"
proof (induction g arbitrary: fuel emitted)
  case Nil
  show ?case by simp
next
  case (Cons c cs)
  from Cons.prems obtain f where f: "fuel = Suc f" and len: "length cs \<le> f"
    by (cases fuel) auto
  from Cons.prems have here: "set (refs c) \<subseteq> set emitted"
    and rest: "in_order (emitted @ [cid c]) cs" by auto
  have "topo f (emitted @ [cid c]) cs = Inr cs"
    using Cons.IH [OF rest len] .
  with here show ?case unfolding f by simp
qed

lemma app_constructs_cases:
  "app_constructs e props \<in>
     {app_constructs Map.empty None,
      app_constructs Map.empty (Some \<lparr>config = \<lparr>environmentVariables = [], secrets = [''k'']\<rparr>\<rparr>),
      app_constructs [''AURORA_READER_REPLICA'' \<mapsto> ''false''] None,
      app_constructs [''AURORA_READER_REPLICA'' \<mapsto> ''false'']
        (Some \<lparr>config = \<lparr>environmentVariables = [], secrets = [''k'']\<rparr>\<rparr>)}"
  by (cases "readerReplicaCondition e"; cases "secretKeys props = []")
     (simp_all add: app_constructs_def auroraCluster_def readerReplicaCondition_def
       instance_constructs_def secretKeys_def app_githubActionsRole_def addToPolicy_def)


lemmas graph_defs =
  app_constructs_def auroraCluster_def readerReplicaCondition_def instance_constructs_def
  secretKeys_def app_githubActionsRole_def addToPolicy_def Construct_def serverlessV2_def
  albSecurityGroup_def serviceSecurityGroup_def dbSecurityGroup_def addIngressRule_def
  SecurityGroup_def peer_refs_def statement_refs_def PolicyStatement_def fargateService_def
  ApplicationFleet_def

lemma app_constructs_in_order: "in_order [] (app_constructs e props)"
  using app_constructs_cases [of e props]
  by (elim insertE emptyE) (simp_all add: graph_defs)

lemma app_constructs_distinct: "distinct (map cid (app_constructs e props))"
  using app_constructs_cases [of e props]
  by (elim insertE emptyE) (simp_all add: graph_defs)

lemma app_constructs_closed:
  "set (all_refs (app_constructs e props)) \<subseteq> set (map cid (app_constructs e props))"
  using app_constructs_cases [of e props]
  by (elim insertE emptyE) (simp_all add: graph_defs all_refs_def)

lemma replica_pruned:
  "\<not> readerReplicaCondition e \<Longrightarrow>
   ''replica'' \<notin> set (map cid (app_constructs e props)) \<and>
   ''replica'' \<notin> set (all_refs (app_constructs e props))"
  by (cases "secretKeys props = []") (simp_all add: graph_defs all_refs_def)

lemma replica_kept:
  "readerReplicaCondition e \<Longrightarrow> ''replica'' \<in> set (map cid (app_constructs e props))"
  by (simp add: graph_defs)

lemma build_dangling:
  "distinct (map cid g) \<Longrightarrow> t \<in> set (all_refs g) \<Longrightarrow> t \<notin> set (map cid g) \<Longrightarrow>
   build g = Inl DanglingReference"
  unfolding build_def by auto

section \<open>The steps of the rollout\<close>

lemma teardown_simps:
  "phase (teardown r) = ROLLING_BACK" "rollbacks (teardown r) = Suc (rollbacks r)"
  "targetSet (teardown r) = []" "startedAt (teardown r) = startedAt r"
  "instances (teardown r) = map (\<lambda>i. i\<lparr>sub := replaced\<rparr>) (instances r)"
  by (simp_all add: teardown_def)

lemma poll_success_simps:
  "rollbacks (poll_success c k r) = rollbacks r"
  "startedAt (poll_success c k r) = startedAt r"
  "instances (poll_success c k r) = (instances r)[k := on_success c (instances r ! k)]"
  "targetSet (poll_success c k r) =
     (if sub (on_success c (instances r ! k)) = healthy then List.insert k (targetSet r)
      else targetSet r)"
  by (simp_all add: poll_success_def Let_def)

lemma poll_success_phase:
  "phase (poll_success c k r) = phase r \<or> phase (poll_success c k r) = STEADY"
  by (simp add: poll_success_def Let_def)

lemma step_in_start_period:
  "k < length (instances r) \<Longrightarrow> in_start_period c (instances r ! k) t \<Longrightarrow>
   step c (Poll k t False) r = r"
  by simp

lemma quiet_step:
  assumes "fails_in_start_period_only c r [ev]"
  shows "rollbacks (step c ev r) = rollbacks r \<and>
         (phase r \<noteq> ROLLING_BACK \<longrightarrow> phase (step c ev r) \<noteq> ROLLING_BACK)"
proof (cases ev)
  case (Launch t)
  then show ?thesis by auto
next
  case (Poll k t ok)
  show ?thesis
  proof (cases ok)
    case True
    with Poll show ?thesis
      using poll_success_phase [of c k r] by (auto simp: poll_success_simps)
  next
    case False
    with Poll assms have "k < length (instances r)" "in_start_period c (instances r ! k) t"
      by auto
    with Poll False show ?thesis by simp
  qed
next
  case (Tick t)
  with assms show ?thesis by auto
next
  case Cancel
  with assms show ?thesis by simp
next
  case (Restored ok)
  then show ?thesis by auto
qed

lemma quiet_run:
  "fails_in_start_period_only c r evs \<Longrightarrow>
   rollbacks (run c evs r) = rollbacks r \<and>
   (phase r \<noteq> ROLLING_BACK \<longrightarrow> phase (run c evs r) \<noteq> ROLLING_BACK)"
proof (induction evs arbitrary: r)
  case Nil
  show ?case by (simp add: run_def)
next
  case (Cons ev evs)
  from Cons.prems have here: "fails_in_start_period_only c r [ev]"
    and rest: "fails_in_start_period_only c (step c ev r) evs" by auto
  from quiet_step [OF here] Cons.IH [OF rest] show ?case
    by (simp add: run_def)
qed

lemmas config_defs =
  container_check_config_def target_check_config_def fargateService_def
  containerHealthCheck_def ApplicationFleet_def

lemmas step_defs =
  new_rollout_def new_instance_def poll_success_def poll_failure_def on_success_def
  on_failure_def in_start_period_def in_grace_period_def teardown_def runningHealthy_def
  runningUnhealthy_def Let_def

lemma scenario_final:
  "run container_check_config start_period_scenario (new_rollout 0) =
     \<lparr>phase = STEADY, startedAt = 0,
      instances = [\<lparr>launchedAt = 0, sub = healthy, successes = 1, failures = 0\<rparr>,
                   \<lparr>launchedAt = 0, sub = healthy, successes = 1, failures = 0\<rparr>],
      targetSet = [1, 0], rollbacks = 0\<rparr>"
  by (simp add: run_def start_period_scenario_def config_defs step_defs)

lemma scenario_quiet:
  "fails_in_start_period_only container_check_config (new_rollout 0) start_period_scenario"
  by (simp add: start_period_scenario_def config_defs step_defs)

lemma unhealthy_counted:
  "k < length xs \<Longrightarrow> sub (xs ! k) = unhealthy \<Longrightarrow>
   0 < length (filter (\<lambda>i. sub i = unhealthy) xs)"
  by (metis (mono_tags, lifting) filter_empty_conv length_greater_0_conv nth_mem)

lemma registered_teardown: "registered_iff_healthy (teardown r)"
  by (auto simp: registered_iff_healthy_def teardown_def)

lemma on_success_sub:
  "sub (on_success c i) = healthy \<longleftrightarrow>
     sub i = healthy \<or> (sub i = starting \<and> rc_healthyThreshold c \<le> Suc (successes i))"
  by (auto simp: on_success_def)

lemma on_failure_sub:
  "sub (on_failure c i) = healthy \<Longrightarrow> sub i = healthy"
  by (simp add: on_failure_def split: if_splits)

lemma on_failure_unhealthy_not_healthy:
  "sub (on_failure c i) = unhealthy \<or> sub (on_failure c i) = sub i"
  by (simp add: on_failure_def)

lemma healthy_positions_update:
  "k < length xs \<Longrightarrow>
   {j. j < length (xs[k := i]) \<and> sub (xs[k := i] ! j) = healthy} =
     (if sub i = healthy
      then insert k {j. j < length xs \<and> sub (xs ! j) = healthy}
      else {j. j < length xs \<and> sub (xs ! j) = healthy} - {k})"
  by (auto simp: nth_list_update)

lemma registered_poll_success:
  assumes inv: "registered_iff_healthy r" and k: "k < length (instances r)"
  shows "registered_iff_healthy (poll_success c k r)"
proof -
  let ?i = "on_success c (instances r ! k)"
  let ?H = "{j. j < length (instances r) \<and> sub (instances r ! j) = healthy}"
  from inv have ts: "set (targetSet r) = ?H" by (simp add: registered_iff_healthy_def)
  have "set (targetSet (poll_success c k r)) =
        {j. j < length (instances (poll_success c k r)) \<and>
            sub (instances (poll_success c k r) ! j) = healthy}"
  proof (cases "sub ?i = healthy")
    case True
    then show ?thesis
      unfolding poll_success_simps healthy_positions_update [OF k] using ts by simp
  next
    case False
    then have "sub (instances r ! k) \<noteq> healthy" by (simp add: on_success_sub)
    then have "k \<notin> ?H" by simp
    with False show ?thesis
      unfolding poll_success_simps healthy_positions_update [OF k] using ts by simp
  qed
  then show ?thesis by (simp add: registered_iff_healthy_def)
qed

lemma registered_poll_failure:
  assumes inv: "registered_iff_healthy r" and k: "k < length (instances r)"
  shows "registered_iff_healthy (poll_failure c k t r)"
proof -
  let ?i = "on_failure c (instances r ! k)"
  let ?H = "{j. j < length (instances r) \<and> sub (instances r ! j) = healthy}"
  let ?r' = "r\<lparr>instances := (instances r)[k := ?i],
       targetSet := (if sub ?i = unhealthy then removeAll k (targetSet r) else targetSet r)\<rparr>"
  from inv have ts: "set (targetSet r) = ?H" by (simp add: registered_iff_healthy_def)
  have "set (targetSet ?r') =
        {j. j < length (instances ?r') \<and> sub (instances ?r' ! j) = healthy}"
  proof (cases "sub ?i = unhealthy")
    case True
    then show ?thesis
      using ts healthy_positions_update [OF k, of ?i] by simp
  next
    case False
    with on_failure_unhealthy_not_healthy [of c "instances r ! k"]
    have same: "sub ?i = sub (instances r ! k)" by simp
    show ?thesis
    proof (cases "sub (instances r ! k) = healthy")
      case True
      with k have "k \<in> ?H" by simp
      then have "insert k ?H = ?H" by (rule insert_absorb)
      with True False same show ?thesis
        using ts healthy_positions_update [OF k, of ?i] by simp
    next
      case no: False
      then have "k \<notin> ?H" by simp
      then have "?H - {k} = ?H" by simp
      with no False same show ?thesis
        using ts healthy_positions_update [OF k, of ?i] by simp
    qed
  qed
  then have "registered_iff_healthy ?r'" by (simp add: registered_iff_healthy_def)
  then show ?thesis
    unfolding poll_failure_def Let_def by (simp add: registered_teardown)
qed

lemma registered_launch:
  assumes inv: "registered_iff_healthy r"
  shows "registered_iff_healthy (r\<lparr>instances := instances r @ [new_instance t], phase := p\<rparr>)"
proof -
  have "{k. k < length (instances r @ [new_instance t]) \<and>
            sub ((instances r @ [new_instance t]) ! k) = healthy} =
        {k. k < length (instances r) \<and> sub (instances r ! k) = healthy}"
  proof (rule set_eqI)
    fix k
    show "k \<in> {k. k < length (instances r @ [new_instance t]) \<and>
            sub ((instances r @ [new_instance t]) ! k) = healthy} \<longleftrightarrow>
          k \<in> {k. k < length (instances r) \<and> sub (instances r ! k) = healthy}"
    proof (cases "k < length (instances r)")
      case True
      then show ?thesis by (simp add: nth_append)
    next
      case False
      then show ?thesis by (simp add: nth_append new_instance_def)
    qed
  qed
  with inv show ?thesis by (simp add: registered_iff_healthy_def)
qed

lemma registered_phase:
  "registered_iff_healthy (r\<lparr>phase := p\<rparr>) = registered_iff_healthy r"
  by (simp add: registered_iff_healthy_def)

lemma registered_step:
  assumes inv: "registered_iff_healthy r"
  shows "registered_iff_healthy (step c ev r)"
proof (cases ev)
  case (Launch t)
  show ?thesis unfolding Launch step.simps
    using inv registered_launch [OF inv] by (simp only: if_split) blast
next
  case (Poll k t ok)
  show ?thesis
  proof (cases "phase r \<noteq> HEALTH_EVALUATION \<or> length (instances r) \<le> k")
    case True
    with inv Poll show ?thesis by simp
  next
    case False
    then have k: "k < length (instances r)" by simp
    from False Poll have "step c ev r = poll_success c k r \<or> step c ev r = r \<or>
        step c ev r = poll_failure c k t r" by simp
    with inv registered_poll_success [OF inv k] registered_poll_failure [OF inv k]
    show ?thesis by metis
  qed
next
  case (Tick t)
  have "step c ev r = teardown r \<or> step c ev r = r" unfolding Tick by simp
  with inv registered_teardown [of r] show ?thesis by metis
next
  case Cancel
  have "step c ev r = teardown r \<or> step c ev r = r" unfolding Cancel by simp
  with inv registered_teardown [of r] show ?thesis by metis
next
  case (Restored ok)
  have "step c ev r = r\<lparr>phase := (if ok then ROLLED_BACK else FAILED)\<rparr> \<or> step c ev r = r"
    unfolding Restored by simp
  with inv registered_phase show ?thesis by metis
qed

lemma registered_run:
  "registered_iff_healthy r \<Longrightarrow> registered_iff_healthy (run c evs r)"
  unfolding run_def
  by (induction evs arbitrary: r) (simp_all add: registered_step del: step.simps)

lemma registered_new: "registered_iff_healthy (new_rollout t)"
  by (simp add: registered_iff_healthy_def new_rollout_def)

lemma registered_serves: "registered_iff_healthy r \<Longrightarrow> serves_only_healthy r"
  by (auto simp: registered_iff_healthy_def serves_only_healthy_def list_all_iff)

lemma newly_registered:
  assumes inv: "registered_iff_healthy r"
    and before: "k \<notin> set (targetSet r)" and after: "k \<in> set (targetSet (step c ev r))"
  shows "(\<exists>t. ev = Poll k t True) \<and> sub (instances r ! k) = starting \<and>
         rc_healthyThreshold c \<le> Suc (successes (instances r ! k))"
proof (cases ev)
  case (Launch t)
  with before after show ?thesis by (simp split: if_splits)
next
  case (Poll j t ok)
  show ?thesis
  proof (cases "phase r \<noteq> HEALTH_EVALUATION \<or> length (instances r) \<le> j")
    case True
    with Poll before after show ?thesis by simp
  next
    case False
    then have j: "j < length (instances r)" and ph: "phase r = HEALTH_EVALUATION" by auto
    show ?thesis
    proof (cases ok)
      case True
      with Poll False have s: "step c ev r = poll_success c j r" by simp
      from after before have jk: "j = k" and h: "sub (on_success c (instances r ! j)) = healthy"
        unfolding s by (auto simp: poll_success_simps split: if_splits)
      from inv before j jk have "sub (instances r ! k) \<noteq> healthy"
        unfolding registered_iff_healthy_def by auto
      with h jk True Poll show ?thesis by (auto simp: on_success_sub)
    next
      case no: False
      have "set (targetSet (poll_failure c j t r)) \<subseteq> set (targetSet r)"
        by (auto simp: poll_failure_def Let_def teardown_def)
      with Poll False no before after show ?thesis
        by (auto split: if_splits)
    qed
  qed
next
  case (Tick t)
  with before after show ?thesis by (simp add: teardown_simps split: if_splits)
next
  case Cancel
  with before after show ?thesis by (simp add: teardown_simps split: if_splits)
next
  case (Restored ok)
  with before after show ?thesis by (simp split: if_splits)
qed

lemma steady_gate:
  assumes "phase r \<noteq> STEADY" "phase (step c ev r) = STEADY"
  shows "(\<exists>k t. ev = Poll k t True) \<and> rc_desiredCount c \<le> runningHealthy (step c ev r)"
proof (cases ev)
  case (Poll k t ok)
  with assms show ?thesis
    by (auto simp: poll_success_def poll_failure_def Let_def teardown_def runningHealthy_def
        split: if_splits)
qed (use assms in \<open>auto simp: teardown_def split: if_splits\<close>)

section \<open>The first declaration that throws\<close>












section \<open>Properties of the composition\<close>

text \<open>
  \<^bold>\<open>C1\<close>. For every value of \<open>AURORA_READER_REPLICA\<close>, unset included, the reader list of the
  Aurora cluster holds the replica instance exactly when the guarding condition is true.
  The condition is false exactly when the variable is the text \<open>false\<close>: an unset variable
  includes the replica, and the value \<open>false\<close> leaves the reader list empty.
\<close>

theorem reader_replica_iff_condition:
  "readers (s_auroraCluster (AppStack e props)) =
     (if readerReplicaCondition e then [serverlessV2 ''replica'' (Some True)] else []) \<and>
   (serverlessV2 ''replica'' (Some True) \<in> set (readers (s_auroraCluster (AppStack e props))))
     = readerReplicaCondition e \<and>
   (\<not> readerReplicaCondition e) = (e ''AURORA_READER_REPLICA'' = Some ''false'') \<and>
   readerReplicaCondition (e(''AURORA_READER_REPLICA'' := None)) \<and>
   readers (s_auroraCluster (AppStack (e(''AURORA_READER_REPLICA'' := None)) props))
     = [serverlessV2 ''replica'' (Some True)] \<and>
   \<not> readerReplicaCondition (e(''AURORA_READER_REPLICA'' \<mapsto> ''false'')) \<and>
   readers (s_auroraCluster (AppStack (e(''AURORA_READER_REPLICA'' \<mapsto> ''false'')) props)) = []"
  by (simp add: AppStack_def auroraCluster_def readerReplicaCondition_def)

text \<open>
  \<^bold>\<open>C9\<close>. In every composition the security group of the load balancer has exactly two
  ingress rules, for TCP ports 443 and 3000, and the peer of both is any IPv4 address: neither
  rule names the CDN or another security group.
\<close>

theorem alb_ingress_any_ipv4:
  "ingress (s_albSecurityGroup (AppStack e props)) =
     [\<lparr>rulePeer = anyIpv4, rulePort = tcp 443, ruleDescription = ''Allow HTTPS traffic''\<rparr>,
      \<lparr>rulePeer = anyIpv4, rulePort = tcp 3000, ruleDescription = ''Allow HTTP traffic''\<rparr>]"
  by (simp add: AppStack_def albSecurityGroup_def addIngressRule_def SecurityGroup_def)

text \<open>
  \<^bold>\<open>C8\<close>. For every list \<open>ks\<close> of secret keys in the configuration, the container's secrets
  map sends each key of \<open>ks\<close> to a by-key reference into the one secret named by
  \<open>SECRET_NAME\<close>, and holds no other key; without a configuration it is empty. The
  plaintext environment map is the same whatever the secret list and the process
  environment are: it is computed from the configured variables alone.
\<close>

theorem container_secrets_by_key:
  "map_of (containerSecrets (s_container (AppStack e
       (Some \<lparr>config = \<lparr>environmentVariables = vars, secrets = ks\<rparr>\<rparr>)))) k =
     (if k \<in> set ks then Some (fromSecretsManager \<lparr>secretName = e ''SECRET_NAME''\<rparr> k)
      else None) \<and>
   containerSecrets (s_container (AppStack e None)) = [] \<and>
   Object_keys (containerSecrets (s_container (AppStack e
       (Some \<lparr>config = \<lparr>environmentVariables = vars, secrets = [''DB_URL'', ''API_KEY'']\<rparr>\<rparr>))))
     = [''DB_URL'', ''API_KEY''] \<and>
   secretName (s_secret (AppStack e props)) = e ''SECRET_NAME'' \<and>
   environment (s_container (AppStack e
       (Some \<lparr>config = \<lparr>environmentVariables = vars, secrets = ks\<rparr>\<rparr>))) =
   environment (s_container (AppStack e'
       (Some \<lparr>config = \<lparr>environmentVariables = vars, secrets = []\<rparr>\<rparr>)))"
proof -
  have a: "map_of (containerSecrets (s_container (AppStack e
       (Some \<lparr>config = \<lparr>environmentVariables = vars, secrets = ks\<rparr>\<rparr>)))) k =
     (if k \<in> set ks then Some (fromSecretsManager \<lparr>secretName = e ''SECRET_NAME''\<rparr> k)
      else None)"
    by (simp add: AppStack_def AppContainer_def map_of_container_secrets secret_def
        secretKeys_def)
  have b: "containerSecrets (s_container (AppStack e None)) = []"
    by (simp add: AppStack_def AppContainer_def container_secrets_def secretKeys_def)
  have c: "Object_keys (containerSecrets (s_container (AppStack e
       (Some \<lparr>config = \<lparr>environmentVariables = vars, secrets = [''DB_URL'', ''API_KEY'']\<rparr>\<rparr>))))
     = [''DB_URL'', ''API_KEY'']"
    by (simp add: AppStack_def AppContainer_def container_secrets_def secretKeys_def
        js_spread_def Object_keys_def)
  have d: "secretName (s_secret (AppStack e props)) = e ''SECRET_NAME''"
    by (simp add: AppStack_def secret_def)
  have f: "environment (s_container (AppStack e
       (Some \<lparr>config = \<lparr>environmentVariables = vars, secrets = ks\<rparr>\<rparr>))) =
   environment (s_container (AppStack e'
       (Some \<lparr>config = \<lparr>environmentVariables = vars, secrets = []\<rparr>\<rparr>)))"
    by (simp add: AppStack_def AppContainer_def container_environment_def envKeys_def
        envVars_def configuredVariables_def)
  from a b c d f show ?thesis by blast
qed

text \<open>
  \<^bold>\<open>C10\<close>. For every configuration, and without one, the container's environment maps
  \<open>PORT\<close> to \<open>3000\<close>, also when the configured variables have a \<open>PORT\<close> of their own.
  Every other key of the configured variables \<open>vars\<close> (an object: its keys are distinct)
  keeps its configured value, and no other key appears; without a configuration \<open>PORT\<close> is
  the only key.
\<close>

theorem container_port_fixed:
  "map_of (environment (s_container (AppStack e props))) ''PORT'' = Some (Some ''3000'') \<and>
   environment (s_container (AppStack e None)) = [(''PORT'', Some ''3000'')] \<and>
   (distinct (map fst vars) \<longrightarrow>
     (\<forall>k. k \<noteq> ''PORT'' \<longrightarrow>
        map_of (environment (s_container (AppStack e
            (Some \<lparr>config = \<lparr>environmentVariables = vars, secrets = ks\<rparr>\<rparr>)))) k =
          map_option Some (map_of vars k)))"
proof -
  have env: "environment (s_container (AppStack e p)) = container_environment p" for p
    by (simp add: AppStack_def AppContainer_def)
  have port: "map_of (container_environment props) ''PORT'' = Some (Some ''3000'')"
    by (simp add: map_of_container_environment dom_envVars map_of_envVars)
  have none: "container_environment None = [(''PORT'', Some ''3000'')]"
    by (simp add: container_environment_def envKeys_def envVars_def configuredVariables_def
        js_spread_def Object_keys_def)
  have rest: "map_of (container_environment
        (Some \<lparr>config = \<lparr>environmentVariables = vars, secrets = ks\<rparr>\<rparr>)) k =
       map_option Some (map_of vars k)"
    if d: "distinct (map fst vars)" and k: "k \<noteq> ''PORT''" for k
  proof -
    let ?p = "Some \<lparr>config = \<lparr>environmentVariables = vars, secrets = ks\<rparr>\<rparr>"
    have cv: "configuredVariables ?p = vars" by (simp add: configuredVariables_def)
    have r: "map_of (rev vars) = map_of vars"
      using d by (rule map_of_rev_distinct)
    show ?thesis
    proof (cases "map_of vars k")
      case None
      then have "k \<notin> fst ` set vars"
        by (simp add: map_of_eq_None_iff)
      with k None show ?thesis
        by (simp add: map_of_container_environment dom_envVars cv)
    next
      case (Some v)
      then have "k \<in> fst ` set vars"
        using map_of_SomeD [of vars k v] by force
      with k Some show ?thesis
        by (simp add: map_of_container_environment dom_envVars map_of_envVars r cv)
    qed
  qed
  show ?thesis unfolding env using port none rest by blast
qed

theorem container_port_fixed_witness:
  "map_of (environment (s_container (AppStack full_env
      (Some \<lparr>config = \<lparr>environmentVariables =
          [(''PORT'', ''8080''), (''NODE_ENV'', ''production''),
           (''API_URL'', ''https://api.example.com'')],
        secrets = [''DB_URL'']\<rparr>\<rparr>)))) ''PORT'' = Some (Some ''3000'') \<and>
   map_of (environment (s_container (AppStack full_env
      (Some \<lparr>config = \<lparr>environmentVariables =
          [(''PORT'', ''8080''), (''NODE_ENV'', ''production''),
           (''API_URL'', ''https://api.example.com'')],
        secrets = [''DB_URL'']\<rparr>\<rparr>)))) ''NODE_ENV'' = Some (Some ''production'') \<and>
   map_of (environment (s_container (AppStack full_env
      (Some \<lparr>config = \<lparr>environmentVariables =
          [(''PORT'', ''8080''), (''NODE_ENV'', ''production''),
           (''API_URL'', ''https://api.example.com'')],
        secrets = [''DB_URL'']\<rparr>\<rparr>)))) ''API_URL'' = Some (Some ''https://api.example.com'') \<and>
   map_of (environment (s_container (AppStack full_env
      (Some \<lparr>config = \<lparr>environmentVariables =
          [(''PORT'', ''8080''), (''NODE_ENV'', ''production''),
           (''API_URL'', ''https://api.example.com'')],
        secrets = [''DB_URL'']\<rparr>\<rparr>)))) ''DB_URL'' = None"
proof -
  define vars where "vars = [(''PORT'', ''8080''), (''NODE_ENV'', ''production''),
           (''API_URL'', ''https://api.example.com'')]"
  define p where "p = Some \<lparr>config = \<lparr>environmentVariables = vars, secrets = [''DB_URL'']\<rparr>\<rparr>"
  have d: "distinct (map fst vars)" by (simp add: vars_def)
  from container_port_fixed [of full_env p vars "[''DB_URL'']"] d
  have port: "map_of (environment (s_container (AppStack full_env p))) ''PORT'' = Some (Some ''3000'')"
    and rest: "\<And>k. k \<noteq> ''PORT'' \<Longrightarrow>
        map_of (environment (s_container (AppStack full_env p))) k =
          map_option Some (map_of vars k)"
    unfolding p_def by blast+
  have "map_of (environment (s_container (AppStack full_env p))) ''NODE_ENV'' = Some (Some ''production'')"
    "map_of (environment (s_container (AppStack full_env p))) ''API_URL'' =
       Some (Some ''https://api.example.com'')"
    "map_of (environment (s_container (AppStack full_env p))) ''DB_URL'' = None"
    by (simp_all add: rest vars_def)
  with port show ?thesis unfolding p_def vars_def by blast
qed

text \<open>
  \<^bold>\<open>C6\<close>, as stated, fails: the deployment role may write, read and delete the objects of the
  static bucket and list it, which is none of image push, service update and cache
  invalidation, nor needed by any of them.
\<close>

theorem ci_static_upload_outside_constrained_set:
  "''s3:PutObject'' \<in> set (ci_actions Map.empty) \<and>
   ''s3:PutObject'' \<notin> set constrained_actions \<and>
   \<not> set (ci_actions Map.empty) \<subseteq> set constrained_actions"
proof -
  have a: "''s3:PutObject'' \<in> set (ci_actions Map.empty)"
    unfolding ci_actions_eq by simp
  have b: "''s3:PutObject'' \<notin> set constrained_actions"
    by (simp add: constrained_actions_def image_push_actions_def service_update_actions_def
        cache_invalidation_actions_def)
  from a b show ?thesis by blast
qed

text \<open>
  \<^bold>\<open>C6\<close>, amended. Every action attached to the deployment user and role, over both stacks,
  is one of image push, service update, cache invalidation (with the registry login, the
  task definition actions, \<open>iam:PassRole\<close> and \<open>sts:AssumeRole\<close>) or of the static asset
  upload. No action is a wildcard. The resource is the wildcard in exactly three statements
  (task definition actions, \<open>iam:PassRole\<close>, registry login); the static asset actions are
  granted on the static bucket and its objects only.
\<close>

theorem ci_permissions_bounded:
  "set (ci_actions e) \<subseteq> set (constrained_actions @ static_asset_actions) \<and>
   list_all (\<lambda>a. CHR ''*'' \<notin> set a) (ci_actions e) \<and>
   map actions (filter wildcard_resource (ci_statements e)) =
     [[''ecs:DescribeTaskDefinition'', ''ecs:RegisterTaskDefinition''], [''iam:PassRole''],
      [''ecr:GetAuthorizationToken'']] \<and>
   map resources (filter (\<lambda>s. set (actions s) \<inter> set static_asset_actions \<noteq> {})
       (ci_statements e)) =
     [[[Attr ''AppStaticBucket'' ''bucketArn'', Txt ''/*'']],
      [[Attr ''AppStaticBucket'' ''bucketArn'']]]"
proof -
  have a: "set (ci_actions e) \<subseteq> set (constrained_actions @ static_asset_actions)"
    unfolding ci_actions_eq
    by (simp add: constrained_actions_def image_push_actions_def service_update_actions_def
        cache_invalidation_actions_def static_asset_actions_def)
  have b: "list_all (\<lambda>a. CHR ''*'' \<notin> set a) (ci_actions e)"
    unfolding ci_actions_eq by simp
  have c: "map actions (filter wildcard_resource (ci_statements e)) =
     [[''ecs:DescribeTaskDefinition'', ''ecs:RegisterTaskDefinition''], [''iam:PassRole''],
      [''ecr:GetAuthorizationToken'']]"
    unfolding ci_statements_eq by (simp add: wildcard_resource_def PolicyStatement_def)
  have d: "map resources (filter (\<lambda>s. set (actions s) \<inter> set static_asset_actions \<noteq> {})
       (ci_statements e)) =
     [[[Attr ''AppStaticBucket'' ''bucketArn'', Txt ''/*'']],
      [[Attr ''AppStaticBucket'' ''bucketArn'']]]"
    unfolding ci_statements_eq by (simp add: static_asset_actions_def PolicyStatement_def)
  from a b c d show ?thesis by blast
qed




text \<open>
  \<^bold>\<open>C2\<close>. For every environment and configuration the constructs of the application stack
  mention only constructs of the stack, and the build yields a plan (the declaration order).
  The replica is a construct exactly when its condition is true. When the condition is
  false nothing mentions the replica, resolving a reference to it is a
  \<open>DanglingReference\<close>, and a composition with one more construct that mentions it,
  declared at any place, is refused with \<open>DanglingReference\<close> instead of a plan.
\<close>

theorem no_reference_to_pruned_replica:
  "build (app_constructs e props) = Inr (app_constructs e props) \<and>
   set (all_refs (app_constructs e props)) \<subseteq> set (map cid (app_constructs e props)) \<and>
   (''replica'' \<in> set (map cid (app_constructs e props))) = readerReplicaCondition e \<and>
   (\<not> readerReplicaCondition e \<longrightarrow>
      ''replica'' \<notin> set (all_refs (app_constructs e props)) \<and>
      resolve (app_constructs e props) materialized
        \<lparr>targetResourceId = ''replica'', attributePath = a\<rparr> = Inl DanglingReference \<and>
      (\<forall>c before after.
          app_constructs e props = before @ after \<longrightarrow>
          ''replica'' \<in> set (refs c) \<longrightarrow>
          cid c \<notin> set (''replica'' # map cid (app_constructs e props)) \<longrightarrow>
          build (before @ [c] @ after) = Inl DanglingReference))"
proof -
  let ?g = "app_constructs e props"
  have b: "build ?g = Inr ?g"
    unfolding build_def
    using app_constructs_distinct [of e props] app_constructs_closed [of e props]
      topo_in_order [OF app_constructs_in_order [of e props], of "length ?g"]
    by simp
  have m: "(''replica'' \<in> set (map cid ?g)) = readerReplicaCondition e"
    using replica_pruned [of e props] replica_kept [of e props] by blast
  have r: "resolve ?g materialized \<lparr>targetResourceId = ''replica'', attributePath = a\<rparr>
      = Inl DanglingReference" if off: "\<not> readerReplicaCondition e"
    using replica_pruned [OF off, of props] by (simp add: resolve_def)
  have d: "build (before @ [c] @ after) = Inl DanglingReference"
    if off: "\<not> readerReplicaCondition e" and split: "?g = before @ after"
      and r: "''replica'' \<in> set (refs c)"
      and fresh: "cid c \<notin> set (''replica'' # map cid ?g)"
    for c before after
  proof (rule build_dangling [where t = "''replica''"])
    from app_constructs_distinct [of e props] fresh show "distinct (map cid (before @ [c] @ after))"
      unfolding split by auto
    from r show "''replica'' \<in> set (all_refs (before @ [c] @ after))"
      by (simp add: all_refs_def)
    from replica_pruned [OF off, of props] fresh
    show "''replica'' \<notin> set (map cid (before @ [c] @ after))"
      unfolding split by auto
  qed
  from b app_constructs_closed [of e props] m r d replica_pruned [of e props]
  show ?thesis by blast
qed

theorem no_reference_to_pruned_replica_witness:
  "build (app_constructs [''AURORA_READER_REPLICA'' \<mapsto> ''false''] None) =
     Inr (app_constructs [''AURORA_READER_REPLICA'' \<mapsto> ''false''] None) \<and>
   ''replica'' \<notin> set (map cid (app_constructs [''AURORA_READER_REPLICA'' \<mapsto> ''false''] None)) \<and>
   ''replica'' \<notin> set (all_refs (app_constructs [''AURORA_READER_REPLICA'' \<mapsto> ''false''] None)) \<and>
   resolve (app_constructs [''AURORA_READER_REPLICA'' \<mapsto> ''false''] None) [''AppVPC'']
     \<lparr>targetResourceId = ''replica'', attributePath = ''endpoint''\<rparr> = Inl DanglingReference \<and>
   build ([] @ [Construct ''Dashboard'' [''replica'']] @
          app_constructs [''AURORA_READER_REPLICA'' \<mapsto> ''false''] None) =
     Inl DanglingReference"
proof -
  let ?e = "[''AURORA_READER_REPLICA'' \<mapsto> ''false'']"
  have off: "\<not> readerReplicaCondition ?e"
    by (simp add: readerReplicaCondition_def)
  have fresh: "cid (Construct ''Dashboard'' [''replica'']) \<notin>
      set (''replica'' # map cid (app_constructs ?e None))"
    by (simp add: graph_defs)
  have r: "''replica'' \<in> set (refs (Construct ''Dashboard'' [''replica'']))"
    by (simp add: Construct_def)
  from no_reference_to_pruned_replica [of ?e None "[''AppVPC'']" "''endpoint''"] off
  have *: "build (app_constructs ?e None) = Inr (app_constructs ?e None)"
    "''replica'' \<notin> set (map cid (app_constructs ?e None))"
    "''replica'' \<notin> set (all_refs (app_constructs ?e None))"
    "resolve (app_constructs ?e None) [''AppVPC'']
       \<lparr>targetResourceId = ''replica'', attributePath = ''endpoint''\<rparr> = Inl DanglingReference"
    "\<And>c before after. app_constructs ?e None = before @ after \<Longrightarrow>
        ''replica'' \<in> set (refs c) \<Longrightarrow>
        cid c \<notin> set (''replica'' # map cid (app_constructs ?e None)) \<Longrightarrow>
        build (before @ [c] @ after) = Inl DanglingReference"
    by blast+
  have "build ([] @ [Construct ''Dashboard'' [''replica'']] @ app_constructs ?e None) =
     Inl DanglingReference"
    by (rule *(5) [OF _ r fresh]) simp
  with *(1-4) show ?thesis by blast
qed

section \<open>Properties of the rollout\<close>

text \<open>
  \<^bold>\<open>C3\<close>. For every configuration (any desired count and start period), a failed poll
  strictly inside the start period of its instance leaves the rollout as it was; a run in
  which every failed poll is inside the start period of its instance (and no timeout or
  cancellation occurs) begins no rollback and never enters \<open>ROLLING_BACK\<close>. With the values
  of the stacks (desired count 2, start period 120, interval 30, failure threshold 3), two
  instances whose polls fail at 0, 30, 60 and 90 seconds and succeed at 120 seconds end in
  \<open>STEADY\<close> with no rollback.
\<close>

theorem start_period_failures_never_roll_back:
  "(k < length (instances r) \<longrightarrow> in_start_period c (instances r ! k) t \<longrightarrow>
      step c (Poll k t False) r = r) \<and>
   (fails_in_start_period_only c r evs \<longrightarrow>
      rollbacks (run c evs r) = rollbacks r \<and>
      (phase r \<noteq> ROLLING_BACK \<longrightarrow> phase (run c evs r) \<noteq> ROLLING_BACK)) \<and>
   rc_desiredCount container_check_config = 2 \<and>
   rc_startPeriod container_check_config = 120 \<and>
   rc_interval container_check_config = 30 \<and>
   rc_unhealthyThreshold container_check_config = 3 \<and>
   fails_in_start_period_only container_check_config (new_rollout 0) start_period_scenario \<and>
   phase (run container_check_config start_period_scenario (new_rollout 0)) = STEADY \<and>
   rollbacks (run container_check_config start_period_scenario (new_rollout 0)) = 0"
proof -
  have cfg: "rc_desiredCount container_check_config = 2"
    "rc_startPeriod container_check_config = 120"
    "rc_interval container_check_config = 30"
    "rc_unhealthyThreshold container_check_config = 3"
    by (simp_all add: config_defs)
  have fin: "phase (run container_check_config start_period_scenario (new_rollout 0)) = STEADY"
    "rollbacks (run container_check_config start_period_scenario (new_rollout 0)) = 0"
    unfolding scenario_final by simp_all
  from step_in_start_period [of k r c t] quiet_run [of c r evs] cfg fin scenario_quiet
  show ?thesis by blast
qed

theorem start_period_failures_never_roll_back_witness:
  "step container_check_config (Poll 1 90 False)
     (run container_check_config [Launch 0, Launch 0] (new_rollout 0)) =
     run container_check_config [Launch 0, Launch 0] (new_rollout 0) \<and>
   rollbacks (run container_check_config
       [Poll 0 0 False, Poll 1 30 False, Poll 0 60 False, Poll 0 90 False, Poll 1 119 False]
       (run container_check_config [Launch 0, Launch 0] (new_rollout 0))) = 0 \<and>
   phase (run container_check_config
       [Poll 0 0 False, Poll 1 30 False, Poll 0 60 False, Poll 0 90 False, Poll 1 119 False]
       (run container_check_config [Launch 0, Launch 0] (new_rollout 0))) \<noteq> ROLLING_BACK"
proof -
  define c where "c = container_check_config"
  define r where "r = run c [Launch 0, Launch 0] (new_rollout 0)"
  define evs where "evs = [Poll 0 0 False, Poll 1 30 False, Poll 0 60 False, Poll 0 90 False,
               Poll 1 119 False]"
  have r: "r = \<lparr>phase = HEALTH_EVALUATION, startedAt = 0,
      instances = [new_instance 0, new_instance 0], targetSet = [], rollbacks = 0\<rparr>"
    unfolding r_def c_def by (simp add: run_def config_defs new_rollout_def)
  have k: "1 < length (instances r)" unfolding r by simp
  have s: "in_start_period c (instances r ! 1) 90"
    unfolding r c_def by (simp add: in_start_period_def new_instance_def config_defs)
  have q: "fails_in_start_period_only c r evs"
    unfolding r c_def evs_def by (simp add: in_start_period_def new_instance_def config_defs)
  have p: "phase r \<noteq> ROLLING_BACK" "rollbacks r = 0" unfolding r by simp_all
  from start_period_failures_never_roll_back [of 1 r c 90 evs] k s q p
  have "step c (Poll 1 90 False) r = r \<and> rollbacks (run c evs r) = 0 \<and>
        phase (run c evs r) \<noteq> ROLLING_BACK"
    by presburger
  then show ?thesis unfolding r_def c_def evs_def .
qed

text \<open>
  \<^bold>\<open>C4\<close>. With a failure threshold of 2 and a tolerance of 0, take an instance under health
  evaluation, starting or healthy, with no failure counted, and two failed polls of it
  outside its start period, the second inside the grace period. The first failure alone
  leaves the rollout in health evaluation; the second moves it to \<open>ROLLING_BACK\<close> and
  begins one rollback; with a successful poll between the two, no rollback begins.
\<close>

theorem two_failures_roll_back:
  assumes thr: "rc_unhealthyThreshold c = 2" and tol: "rc_tolerance c = 0"
    and ph: "phase r = HEALTH_EVALUATION" and k: "k < length (instances r)"
    and live: "sub (instances r ! k) = starting \<or> sub (instances r ! k) = healthy"
    and fresh: "failures (instances r ! k) = 0"
    and out1: "\<not> in_start_period c (instances r ! k) t1"
    and out2: "\<not> in_start_period c (instances r ! k) t2"
    and grace: "in_grace_period c r t2"
  shows "phase (step c (Poll k t1 False) r) = HEALTH_EVALUATION \<and>
         rollbacks (step c (Poll k t1 False) r) = rollbacks r \<and>
         phase (run c [Poll k t1 False, Poll k t2 False] r) = ROLLING_BACK \<and>
         rollbacks (run c [Poll k t1 False, Poll k t2 False] r) = Suc (rollbacks r) \<and>
         phase (run c [Poll k t1 False, Poll k t True, Poll k t2 False] r) \<noteq> ROLLING_BACK \<and>
         rollbacks (run c [Poll k t1 False, Poll k t True, Poll k t2 False] r) = rollbacks r"
proof -
  let ?i = "instances r ! k"
  let ?i1 = "?i\<lparr>failures := Suc 0, successes := 0\<rparr>"
  let ?r1 = "r\<lparr>instances := (instances r)[k := ?i1]\<rparr>"
  have f1: "on_failure c ?i = ?i1"
    using thr fresh by (simp add: on_failure_def)
  have s1: "step c (Poll k t1 False) r = ?r1"
    using ph k out1 live by (auto simp: poll_failure_def Let_def f1)
  have one: "phase (step c (Poll k t1 False) r) = HEALTH_EVALUATION"
    "rollbacks (step c (Poll k t1 False) r) = rollbacks r"
    unfolding s1 using ph by simp_all
  have i1: "instances ?r1 ! k = ?i1" using k by simp
  have out2': "\<not> in_start_period c (instances ?r1 ! k) t2"
    unfolding i1 using out2 by (simp add: in_start_period_def)
  have grace': "in_grace_period c ?r1 t2"
    using grace by (simp add: in_grace_period_def)
  let ?i2 = "on_failure c ?i1"
  have sub2: "sub ?i2 = unhealthy" using thr live by (auto simp: on_failure_def)
  let ?r2 = "?r1\<lparr>instances := (instances ?r1)[k := ?i2],
                  targetSet := removeAll k (targetSet ?r1)\<rparr>"
  have cnt: "0 < runningUnhealthy ?r2"
    unfolding runningUnhealthy_def
    by (rule unhealthy_counted [of k]) (use k sub2 in simp_all)
  have s2: "step c (Poll k t2 False) ?r1 = teardown ?r2"
  proof -
    have "step c (Poll k t2 False) ?r1 = poll_failure c k t2 ?r1"
      using ph k out2' by simp
    also have "\<dots> = teardown ?r2"
      unfolding poll_failure_def Let_def i1
      using sub2 live cnt tol grace' by auto
    finally show ?thesis .
  qed
  have two: "phase (run c [Poll k t1 False, Poll k t2 False] r) = ROLLING_BACK"
    "rollbacks (run c [Poll k t1 False, Poll k t2 False] r) = Suc (rollbacks r)"
    unfolding run_def by (simp_all add: s1 s2 teardown_simps del: step.simps)
  let ?r3 = "step c (Poll k t True) ?r1"
  have r3: "?r3 = poll_success c k ?r1" using ph k by simp
  have rb3: "rollbacks ?r3 = rollbacks r" unfolding r3 by (simp add: poll_success_simps)
  have ph3: "phase ?r3 = HEALTH_EVALUATION \<or> phase ?r3 = STEADY"
    unfolding r3 using poll_success_phase [of c k ?r1] ph by simp
  have i3: "instances ?r3 ! k = on_success c ?i1"
    unfolding r3 using k by (simp add: poll_success_simps)
  have len3: "k < length (instances ?r3)" unfolding r3 using k by (simp add: poll_success_simps)
  have s4: "phase (step c (Poll k t2 False) ?r3) \<noteq> ROLLING_BACK \<and>
            rollbacks (step c (Poll k t2 False) ?r3) = rollbacks r"
  proof (cases "phase ?r3 = HEALTH_EVALUATION")
    case False
    with ph3 rb3 show ?thesis by simp
  next
    case True
    have nf: "sub (on_failure c (on_success c ?i1)) = sub (on_success c ?i1)"
      using thr by (simp add: on_failure_def on_success_def)
    show ?thesis
    proof (cases "in_start_period c (instances ?r3 ! k) t2")
      case True
      with \<open>phase ?r3 = HEALTH_EVALUATION\<close> rb3 len3 show ?thesis by simp
    next
      case False
      with True len3 have "step c (Poll k t2 False) ?r3 = poll_failure c k t2 ?r3" by simp
      moreover have "phase (poll_failure c k t2 ?r3) = phase ?r3"
        "rollbacks (poll_failure c k t2 ?r3) = rollbacks ?r3"
        unfolding poll_failure_def Let_def i3 nf by simp_all
      ultimately show ?thesis using True rb3 by simp
    qed
  qed
  have three: "phase (run c [Poll k t1 False, Poll k t True, Poll k t2 False] r) \<noteq> ROLLING_BACK"
    "rollbacks (run c [Poll k t1 False, Poll k t True, Poll k t2 False] r) = rollbacks r"
    unfolding run_def using s4 by (simp_all add: s1 del: step.simps)
  from one two three show ?thesis by blast
qed

theorem two_failures_roll_back_witness:
  "phase (step target_check_config (Poll 0 60 False)
       (run target_check_config [Launch 0, Launch 0] (new_rollout 0))) = HEALTH_EVALUATION \<and>
   phase (run target_check_config [Poll 0 60 False, Poll 0 120 False]
       (run target_check_config [Launch 0, Launch 0] (new_rollout 0))) = ROLLING_BACK \<and>
   rollbacks (run target_check_config [Poll 0 60 False, Poll 0 120 False]
       (run target_check_config [Launch 0, Launch 0] (new_rollout 0))) = 1 \<and>
   phase (run target_check_config [Poll 0 60 False, Poll 0 90 True, Poll 0 120 False]
       (run target_check_config [Launch 0, Launch 0] (new_rollout 0))) \<noteq> ROLLING_BACK"
proof -
  define c where "c = target_check_config"
  define r where "r = run c [Launch 0, Launch 0] (new_rollout 0)"
  have r: "r = \<lparr>phase = HEALTH_EVALUATION, startedAt = 0,
      instances = [new_instance 0, new_instance 0], targetSet = [], rollbacks = 0\<rparr>"
    unfolding r_def c_def by (simp add: run_def config_defs new_rollout_def)
  have thr: "rc_unhealthyThreshold c = 2" and tol: "rc_tolerance c = 0"
    unfolding c_def by (simp_all add: config_defs)
  have ph: "phase r = HEALTH_EVALUATION" and k: "0 < length (instances r)"
    and rb: "rollbacks r = 0"
    unfolding r by simp_all
  have live: "sub (instances r ! 0) = starting \<or> sub (instances r ! 0) = healthy"
    and fresh: "failures (instances r ! 0) = 0"
    unfolding r by (simp_all add: new_instance_def)
  have out1: "\<not> in_start_period c (instances r ! 0) 60"
    and out2: "\<not> in_start_period c (instances r ! 0) 120"
    unfolding r c_def by (simp_all add: in_start_period_def new_instance_def config_defs)
  have grace: "in_grace_period c r 120"
    unfolding r c_def by (simp add: in_grace_period_def config_defs)
  from two_failures_roll_back [OF thr tol ph k live fresh out1 out2 grace, of 90] rb
  have "phase (step c (Poll 0 60 False) r) = HEALTH_EVALUATION \<and>
        phase (run c [Poll 0 60 False, Poll 0 120 False] r) = ROLLING_BACK \<and>
        rollbacks (run c [Poll 0 60 False, Poll 0 120 False] r) = 1 \<and>
        phase (run c [Poll 0 60 False, Poll 0 90 True, Poll 0 120 False] r) \<noteq> ROLLING_BACK"
    by simp
  then show ?thesis unfolding r_def c_def .
qed

text \<open>
  \<^bold>\<open>C7\<close>. In every state the rollout reaches from its start, every member of the target set
  is an instance in the healthy sub-state (and every healthy instance is a member): no
  starting, unhealthy or replaced instance is registered. An instance enters the target set
  only by a successful poll of a starting instance that completes the success threshold,
  and the rollout becomes \<open>STEADY\<close> only by such a poll, when the desired count of
  instances is healthy.
\<close>

theorem only_healthy_instances_serve:
  "serves_only_healthy (run c evs (new_rollout t0)) \<and>
   registered_iff_healthy (run c evs (new_rollout t0)) \<and>
   (k \<notin> set (targetSet (run c evs (new_rollout t0))) \<longrightarrow>
    k \<in> set (targetSet (step c ev (run c evs (new_rollout t0)))) \<longrightarrow>
      (\<exists>t. ev = Poll k t True) \<and>
      sub (instances (run c evs (new_rollout t0)) ! k) = starting \<and>
      rc_healthyThreshold c \<le> Suc (successes (instances (run c evs (new_rollout t0)) ! k))) \<and>
   (phase (run c evs (new_rollout t0)) \<noteq> STEADY \<longrightarrow>
    phase (step c ev (run c evs (new_rollout t0))) = STEADY \<longrightarrow>
      (\<exists>j t. ev = Poll j t True) \<and>
      rc_desiredCount c \<le> runningHealthy (step c ev (run c evs (new_rollout t0))))"
proof -
  let ?r = "run c evs (new_rollout t0)"
  have inv: "registered_iff_healthy ?r"
    by (rule registered_run [OF registered_new])
  from inv registered_serves [OF inv] newly_registered [OF inv, of k c ev]
    steady_gate [of ?r c ev]
  show ?thesis by blast
qed

theorem only_healthy_instances_serve_witness:
  "serves_only_healthy (run target_check_config
      [Launch 0, Launch 0, Poll 0 60 True, Poll 1 60 True, Poll 0 120 True] (new_rollout 0)) \<and>
   1 \<notin> set (targetSet (run target_check_config
      [Launch 0, Launch 0, Poll 0 60 True, Poll 1 60 True, Poll 0 120 True] (new_rollout 0))) \<and>
   1 \<in> set (targetSet (step target_check_config (Poll 1 120 True) (run target_check_config
      [Launch 0, Launch 0, Poll 0 60 True, Poll 1 60 True, Poll 0 120 True] (new_rollout 0)))) \<and>
   sub (instances (run target_check_config
      [Launch 0, Launch 0, Poll 0 60 True, Poll 1 60 True, Poll 0 120 True] (new_rollout 0)) ! 1)
     = starting \<and>
   rc_healthyThreshold target_check_config \<le> Suc (successes (instances (run target_check_config
      [Launch 0, Launch 0, Poll 0 60 True, Poll 1 60 True, Poll 0 120 True] (new_rollout 0)) ! 1)) \<and>
   phase (step target_check_config (Poll 1 120 True) (run target_check_config
      [Launch 0, Launch 0, Poll 0 60 True, Poll 1 60 True, Poll 0 120 True] (new_rollout 0)))
     = STEADY \<and>
   rc_desiredCount target_check_config \<le> runningHealthy
     (step target_check_config (Poll 1 120 True) (run target_check_config
      [Launch 0, Launch 0, Poll 0 60 True, Poll 1 60 True, Poll 0 120 True] (new_rollout 0)))"
proof -
  define c where "c = target_check_config"
  define evs where "evs = [Launch 0, Launch 0, Poll 0 60 True, Poll 1 60 True, Poll 0 120 True]"
  define r where "r = run c evs (new_rollout 0)"
  have r: "r = \<lparr>phase = HEALTH_EVALUATION, startedAt = 0,
      instances = [\<lparr>launchedAt = 0, sub = healthy, successes = 2, failures = 0\<rparr>,
                   \<lparr>launchedAt = 0, sub = starting, successes = 1, failures = 0\<rparr>],
      targetSet = [0], rollbacks = 0\<rparr>"
    unfolding r_def c_def evs_def by (simp add: run_def config_defs step_defs)
  have s: "step c (Poll 1 120 True) r = \<lparr>phase = STEADY, startedAt = 0,
      instances = [\<lparr>launchedAt = 0, sub = healthy, successes = 2, failures = 0\<rparr>,
                   \<lparr>launchedAt = 0, sub = healthy, successes = 2, failures = 0\<rparr>],
      targetSet = [1, 0], rollbacks = 0\<rparr>"
    unfolding r c_def by (simp add: config_defs step_defs)
  have before: "1 \<notin> set (targetSet r)" and ph: "phase r \<noteq> STEADY" unfolding r by simp_all
  have after: "1 \<in> set (targetSet (step c (Poll 1 120 True) r))"
    and st: "phase (step c (Poll 1 120 True) r) = STEADY" unfolding s by simp_all
  from only_healthy_instances_serve [of c evs 0 1 "Poll 1 120 True"] before after ph st
  have "serves_only_healthy r \<and> 1 \<notin> set (targetSet r) \<and>
        1 \<in> set (targetSet (step c (Poll 1 120 True) r)) \<and>
        sub (instances r ! 1) = starting \<and>
        rc_healthyThreshold c \<le> Suc (successes (instances r ! 1)) \<and>
        phase (step c (Poll 1 120 True) r) = STEADY \<and>
        rc_desiredCount c \<le> runningHealthy (step c (Poll 1 120 True) r)"
    unfolding r_def [symmetric] by blast
  then show ?thesis unfolding r_def c_def evs_def .
qed

end
